theory Spec2Isabelle
  imports Complex_Main
begin

section \<open>Data model of libs/ardour/slavable_automation_control.cc\<close>

text \<open>
  A \<open>SlavableAutomationControl\<close> is an \<open>AutomationControl\<close> (the base-class
  sub-object) together with the registry \<open>_masters\<close> and the stashed XML fragment
  \<open>_masters_node\<close>. Values of C++ type \<open>double\<close>, \<open>float\<close> and \<open>gain_t\<close> are
  modelled as \<open>real\<close>: arithmetic is exact, rounding is not modelled. \<open>PBD::ID\<close>
  is a natural number; sample positions (\<open>framepos_t\<close>) are integers, sample counts
  (\<open>framecnt_t\<close>, \<open>pframes_t\<close>) natural numbers.
\<close>

type_synonym ID = nat

type_synonym framepos_t = int

record ParameterDescriptor =
  lower :: real
  upper :: real
  toggled :: bool

text \<open>
  The automation list of a control and its curve are external (Evoral). The model keeps
  what this file asks of them: whether the list is in playback, the envelope value at a
  position (\<open>eval\<close>), the realtime-safe evaluation with its \<open>valid\<close> flag
  (\<open>rt_safe_eval\<close>), and the curve's \<open>rt_safe_get_vector\<close>, which either fails
  (\<open>None\<close>) or fills the session's scratch buffer (\<open>Some scratch\<close>). A buffer
  behind a \<open>float*\<close> is a function from index to sample.
\<close>

record AutomationList =
  automation_playback :: bool
  eval :: "real \<Rightarrow> real"
  rt_safe_eval :: "framepos_t \<Rightarrow> real \<times> bool"
  rt_safe_get_vector :: "framepos_t \<Rightarrow> framepos_t \<Rightarrow> nat \<Rightarrow> (nat \<Rightarrow> real) option"

record AutomationControl =
  ac_id :: ID
  desc :: ParameterDescriptor
  user_value :: real
  alist :: "AutomationList option"

record Session =
  transport_frame :: framepos_t
  deletion_in_progress :: bool

text \<open>
  \<open>MasterRecord\<close>: the weak handle \<open>_master\<close> is modelled by the state of the
  control it points to, so the mastering graph reachable from a control is unfolded
  into a tree. Every master is taken to be a \<open>SlavableAutomationControl\<close>, as
  \<open>masters_curve_multiply\<close> asserts. The connection handles of the record are not
  part of the state: making a connection is recorded as an effect.
\<close>

datatype 'c MasterRecord =
  MasterRecord (master: 'c) (yn: bool) (val_ctrl: real) (val_master: real)

text \<open>
  An XML node as this file uses it: a name, properties and children. The conversion of
  a property to and from its string form is PBD's; a property holds a typed value, and
  reading it at another type fails.
\<close>

datatype PropertyValue = PBool bool | PDouble real | PID ID

datatype XMLNode =
  XMLNode (node_name: string) (properties: "(string \<times> PropertyValue) list")
          (children: "XMLNode list")

text \<open>
  \<open>_masters\<close> is a \<open>std::map\<close> from \<open>PBD::ID\<close> to \<open>MasterRecord\<close>: an association
  list kept in key order. \<open>is_mute_control\<close> is the outcome of
  \<open>dynamic_pointer_cast<MuteControl>\<close> on the object.
\<close>

datatype control =
  Control (base: AutomationControl) (is_mute_control: bool)
          (masters: "(ID \<times> control MasterRecord) list") (masters_node: "XMLNode option")

datatype GroupControlDisposition = InverseGroup | NoGroup | UseGroup | ForGroup

text \<open>
  What an operation does besides changing the control: signals emitted, connections
  made, extension hooks called, the masters lock taken and released by
  \<open>boolean_automation_run\<close>. The first \<open>ID\<close> is the control acting.
\<close>

datatype effect =
    MasterStatusChange ID
  | Changed ID bool GroupControlDisposition
  | Connect_DropReferences ID ID
  | Connect_Changed ID ID
  | Post_add_master ID ID
  | Pre_remove_master ID "ID option"
  | ReaderLock ID
  | ReaderUnlock ID

text \<open>
  The size of a master is below the size of the control whose registry holds it: the
  measure for every recursion through the masters.
\<close>

lemma size_list_mem: "x \<in> set xs \<Longrightarrow> f x < size_list f xs"
  by (induction xs) auto

lemma master_in_masters_size:
  assumes "kr \<in> set ms"
  shows "size (master (snd kr)) + 2 < size_list (size_prod (\<lambda>x. 0) (size_MasterRecord size)) ms"
proof -
  have "size (master (snd kr)) < size_MasterRecord size (snd kr)"
    by (cases "snd kr") simp
  moreover have "size_MasterRecord size (snd kr) < size_prod (\<lambda>x. 0) (size_MasterRecord size) kr"
    by (cases kr) simp
  moreover have "size_prod (\<lambda>x. 0) (size_MasterRecord size) kr
      < size_list (size_prod (\<lambda>x. 0) (size_MasterRecord size)) ms"
    using assms by (rule size_list_mem)
  ultimately show ?thesis by linarith
qed

section \<open>Value computation\<close>

text \<open>
  Modelled from the spec: \<open>Evoral::Control::get_double (from_list, frame)\<close> is not among
  the sources. It is the raw (user) value, or the envelope value at \<open>frame\<close> when
  \<open>from_list\<close> is set; this file sets \<open>from_list\<close> only after checking that the
  list exists. Both arguments default to \<open>false\<close> and \<open>0\<close>.
\<close>

definition get_double :: "bool \<Rightarrow> real \<Rightarrow> AutomationControl \<Rightarrow> real" where
  "get_double from_list frame c =
     (case alist c of
        None \<Rightarrow> user_value c
      | Some l \<Rightarrow> if from_list then eval l frame else user_value c)"

text \<open>\<open>_list && ...->automation_playback()\<close>, also \<open>AutomationControl::automation_playback\<close>.\<close>

definition ac_automation_playback :: "AutomationControl \<Rightarrow> bool" where
  "ac_automation_playback c =
     (case alist c of None \<Rightarrow> False | Some l \<Rightarrow> automation_playback l)"

text \<open>
  \<open>MasterRecord::master_ratio()\<close> is declared in the class header, which is not among
  the sources. Every function that uses it takes it as the parameter \<open>mr\<close>: a function
  of the session and of the record (with the state of the master it points to).
\<close>

type_synonym master_ratio_fn = "Session \<Rightarrow> control MasterRecord \<Rightarrow> real"

text \<open>
  \<open>get_value\<close>, \<open>get_value_locked\<close> and \<open>get_masters_value_locked\<close>. A call of
  \<open>master()->get_value()\<close> is a call of \<open>get_value\<close> on the master.
\<close>

function (sequential) get_value :: "master_ratio_fn \<Rightarrow> Session \<Rightarrow> control \<Rightarrow> real"
and get_value_locked :: "master_ratio_fn \<Rightarrow> Session \<Rightarrow> control \<Rightarrow> real"
and get_masters_value_locked :: "master_ratio_fn \<Rightarrow> Session \<Rightarrow> control \<Rightarrow> real"
where
  "get_value mr s (Control b mc ms mn) =
     (let from_list = ac_automation_playback b
      in if \<not> from_list then get_value_locked mr s (Control b mc ms mn)
         else get_double True (real_of_int (transport_frame s)) b
              * get_masters_value_locked mr s (Control b mc ms mn))"
| "get_value_locked mr s (Control b mc ms mn) =
     (if ms = [] then get_double False (real_of_int (transport_frame s)) b
      else if toggled (desc b) \<and> get_double False (real_of_int (transport_frame s)) b \<noteq> 0
           then upper (desc b)
      else get_double False 0 b * get_masters_value_locked mr s (Control b mc ms mn))"
| "get_masters_value_locked mr s (Control b mc ms mn) =
     (if toggled (desc b) then
        (if list_ex (\<lambda>kr. get_value mr s (master (snd kr)) \<noteq> 0) ms
         then upper (desc b) else lower (desc b))
      else fold (\<lambda>kr v. v * mr s (snd kr)) ms 1)"
  by pat_completeness auto
termination
  by (relation "measure (\<lambda>x. case x of
          Inl (_, _, c) \<Rightarrow> 3 * size c + 2
        | Inr (Inl (_, _, c)) \<Rightarrow> 3 * size c + 1
        | Inr (Inr (_, _, c)) \<Rightarrow> 3 * size c)")
     (auto dest: master_in_masters_size)

section \<open>The registry of masters\<close>

text \<open>
  \<open>std::map::insert\<close> keeps an existing entry and reports whether it inserted;
  \<open>find\<close> is \<open>map_of\<close>; \<open>erase (key)\<close> reports how many entries it removed;
  \<open>masters_modify\<close> changes the entry an iterator obtained from \<open>find\<close> points to.
\<close>

fun masters_insert :: "ID \<Rightarrow> 'v \<Rightarrow> (ID \<times> 'v) list \<Rightarrow> (ID \<times> 'v) list \<times> bool" where
  "masters_insert k v [] = ([(k, v)], True)"
| "masters_insert k v ((k', v') # xs) =
     (if k = k' then ((k', v') # xs, False)
      else if k < k' then ((k, v) # (k', v') # xs, True)
      else (let res = masters_insert k v xs in ((k', v') # fst res, snd res)))"

definition masters_erase :: "ID \<Rightarrow> (ID \<times> 'v) list \<Rightarrow> (ID \<times> 'v) list \<times> nat" where
  "masters_erase k xs =
     (filter (\<lambda>kv. fst kv \<noteq> k) xs, length (filter (\<lambda>kv. fst kv = k) xs))"

fun masters_modify :: "ID \<Rightarrow> ('v \<Rightarrow> 'v) \<Rightarrow> (ID \<times> 'v) list \<Rightarrow> (ID \<times> 'v) list" where
  "masters_modify k f [] = []"
| "masters_modify k f ((k', v) # xs) =
     (if k = k' then (k', f v) # xs else (k', v) # masters_modify k f xs)"

text \<open>The ordering invariant of the \<open>std::map\<close>: keys strictly ascending, hence unique.\<close>

definition masters_sorted :: "control \<Rightarrow> bool" where
  "masters_sorted c = sorted_wrt (<) (map fst (masters c))"

text \<open>
\<open>MasterRecord::set_yn\<close> and the identity \<open>id()\<close> of a control.
\<close>

fun set_yn :: "bool \<Rightarrow> 'c MasterRecord \<Rightarrow> 'c MasterRecord" where
  "set_yn y (MasterRecord m y0 vc vm) = MasterRecord m y vc vm"

definition self_id :: "control \<Rightarrow> ID" where
  "self_id c = ac_id (base c)"

text \<open>
  \<open>update_boolean_masters_records (m)\<close>: for a toggled control, the record of \<open>m\<close>
  (if there is one) caches whether \<open>m->get_value()\<close> is non-zero.
\<close>

definition update_boolean_masters_records ::
  "master_ratio_fn \<Rightarrow> Session \<Rightarrow> control \<Rightarrow> control \<Rightarrow> control" where
  "update_boolean_masters_records mr s c m =
     (if toggled (desc (base c)) then
        (case map_of (masters c) (self_id m) of
           None \<Rightarrow> c
         | Some r \<Rightarrow>
             Control (base c) (is_mute_control c)
               (masters_modify (self_id m) (set_yn (get_value mr s m \<noteq> 0)) (masters c))
               (masters_node c))
      else c)"

text \<open>
  \<open>add_master (m, loading)\<close>. The record is built from \<open>m\<close>, \<open>get_value_locked()\<close>
  of this control and \<open>m->get_value()\<close>; its constructor (in the header) is taken
  to start the cached boolean at \<open>false\<close>. The hook \<open>post_add_master\<close> is virtual
  and empty in this class: the call is recorded as an effect.
\<close>

definition add_master ::
  "master_ratio_fn \<Rightarrow> Session \<Rightarrow> control \<Rightarrow> control \<Rightarrow> bool \<Rightarrow> control \<times> effect list" where
  "add_master mr s c m loading =
     (let master_value = get_value mr s m;
          newpair = (self_id m, MasterRecord m False (get_value_locked mr s c) master_value);
          res = masters_insert (fst newpair) (snd newpair) (masters c);
          c1 = Control (base c) (is_mute_control c) (fst res) (masters_node c);
          connected = (if snd res
                       then [Connect_DropReferences (self_id c) (self_id m),
                             Connect_Changed (self_id c) (self_id m)]
                       else []);
          emitted = (if snd res then [MasterStatusChange (self_id c)] else [])
      in (update_boolean_masters_records mr s c1 m,
          connected @ emitted @ [Post_add_master (self_id c) (self_id m)]))"

text \<open>
  Modelled from the spec: \<open>AutomationControl::set_double (value, ...)\<close> resolves to
  \<open>Evoral::Control::set_double\<close>, which is not among the sources; it stores the raw
  value.
\<close>

definition set_double :: "real \<Rightarrow> control \<Rightarrow> control" where
  "set_double v c =
     Control ((base c)\<lparr>user_value := v\<rparr>) (is_mute_control c) (masters c) (masters_node c)"

text \<open>\<open>remove_master (m)\<close>; the hook \<open>pre_remove_master\<close> is recorded as an effect.\<close>

definition remove_master ::
  "master_ratio_fn \<Rightarrow> Session \<Rightarrow> control \<Rightarrow> control \<Rightarrow> control \<times> effect list" where
  "remove_master mr s c m =
     (if deletion_in_progress s then (c, [])
      else
        let hook = [Pre_remove_master (self_id c) (Some (self_id m))];
            old_val = get_double False 0 (base c);
            new_val = (case map_of (masters c) (self_id m) of
                         Some r \<Rightarrow> old_val * mr s r
                       | None \<Rightarrow> old_val);
            erased = masters_erase (self_id m) (masters c)
        in if snd erased = 0 then (c, hook)
           else
             let c1 = Control (base c) (is_mute_control c) (fst erased) (masters_node c);
                 c2 = (if old_val \<noteq> new_val then set_double new_val c1 else c1)
             in (c2, hook @ [MasterStatusChange (self_id c)]))"

text \<open>\<open>clear_masters ()\<close>; the hook is called with a null pointer ("all masters").\<close>

definition clear_masters ::
  "master_ratio_fn \<Rightarrow> Session \<Rightarrow> control \<Rightarrow> control \<times> effect list" where
  "clear_masters mr s c =
     (if deletion_in_progress s then (c, [])
      else
        let old_val = get_double False 0 (base c);
            hook = [Pre_remove_master (self_id c) None]
        in if masters c = [] then (c, hook)
           else
             let new_val = old_val * get_masters_value_locked mr s c;
                 c1 = Control (base c) (is_mute_control c) [] (masters_node c);
                 c2 = (if old_val \<noteq> new_val then set_double new_val c1 else c1)
             in (c2, hook @ [MasterStatusChange (self_id c)]))"

section \<open>Setting a value\<close>

text \<open>
  \<open>actually_set_value (value, gcd)\<close>. The base-class
  \<open>AutomationControl::actually_set_value\<close>, which receives the value, is not among the
  sources and is the parameter \<open>base_set\<close>.
\<close>

definition actually_set_value ::
  "(real \<Rightarrow> GroupControlDisposition \<Rightarrow> control \<Rightarrow> 'r) \<Rightarrow> master_ratio_fn \<Rightarrow> Session
     \<Rightarrow> real \<Rightarrow> GroupControlDisposition \<Rightarrow> control \<Rightarrow> 'r" where
  "actually_set_value base_set mr s v disp c =
     (let v1 =
        (if \<not> toggled (desc (base c)) then
           (if masters c \<noteq> [] then
              (let masters_value = get_masters_value_locked mr s c
               in if masters_value = 0 then 0
                  else max (lower (desc (base c))) (min (upper (desc (base c))) (v / masters_value)))
            else v)
         else v)
      in base_set v1 disp c)"

section \<open>The realtime curve compositor\<close>

text \<open>
  The loop \<open>for (i = 0; i < veclen; ++i) vec[i] *= scratch[i]\<close>.
\<close>

function multiply_by_scratch ::
  "nat \<Rightarrow> nat \<Rightarrow> (nat \<Rightarrow> real) \<Rightarrow> (nat \<Rightarrow> real) \<Rightarrow> (nat \<Rightarrow> real)" where
  "multiply_by_scratch i veclen vec scratch =
     (if i < veclen then multiply_by_scratch (Suc i) veclen (vec(i := vec i * scratch i)) scratch
      else vec)"
  by pat_completeness auto
termination
  by (relation "measure (\<lambda>(i, veclen, vec, scratch). veclen - i)") auto

declare multiply_by_scratch.simps [simp del]

text \<open>
  Modelled from the spec: \<open>apply_gain_to_buffer (buf, n, gain)\<close> is a runtime function
  outside the sources; it multiplies the first \<open>n\<close> samples of the buffer by the
  constant \<open>gain\<close>.
\<close>

definition apply_gain_to_buffer :: "(nat \<Rightarrow> real) \<Rightarrow> nat \<Rightarrow> real \<Rightarrow> (nat \<Rightarrow> real)" where
  "apply_gain_to_buffer vec veclen g = (\<lambda>j. if j < veclen then vec j * g else vec j)"

text \<open>
  \<open>masters_curve_multiply (start, end, vec, veclen)\<close> returns the flag and the buffer
  as it leaves it. \<open>list()\<close> is dereferenced unchecked: for a control without a list
  the result is \<open>None\<close>. The loop over the masters accumulates the flag with
  \<open>|=\<close>, so every master's call is made.
\<close>

function (sequential) masters_curve_multiply ::
  "master_ratio_fn \<Rightarrow> Session \<Rightarrow> control \<Rightarrow> framepos_t \<Rightarrow> framepos_t \<Rightarrow> (nat \<Rightarrow> real) \<Rightarrow> nat
     \<Rightarrow> (bool \<times> (nat \<Rightarrow> real)) option" where
  "masters_curve_multiply mr s (Control b mc ms mn) start end_pos vec veclen =
     (case alist b of
        None \<Rightarrow> None
      | Some l \<Rightarrow>
          (let own = (case rt_safe_get_vector l start end_pos veclen of
                        Some scratch \<Rightarrow> (True, multiply_by_scratch 0 veclen vec scratch)
                      | None \<Rightarrow> (False, apply_gain_to_buffer vec veclen (get_double False 0 b)))
           in if ms = [] then Some own
              else fold (\<lambda>kr acc.
                      case acc of
                        None \<Rightarrow> None
                      | Some rv_vec \<Rightarrow>
                          (case masters_curve_multiply mr s (master (snd kr)) start end_pos
                                  (snd rv_vec) veclen of
                             None \<Rightarrow> None
                           | Some sub \<Rightarrow>
                               Some (fst rv_vec \<or> fst sub,
                                     apply_gain_to_buffer (snd sub) veclen (mr s (snd kr)))))
                     ms (Some own)))"
  by pat_completeness auto
termination
  by (relation "measure (\<lambda>(mr, s, c, start, end_pos, vec, veclen). size c)")
     (auto dest: master_in_masters_size)

text \<open>
Every control reached by \<open>masters_curve_multiply\<close> has an automation list.
\<close>

function (sequential) has_lists :: "control \<Rightarrow> bool" where
  "has_lists (Control b mc ms mn) =
     (alist b \<noteq> None \<and> list_all (\<lambda>kr. has_lists (master (snd kr))) ms)"
  by pat_completeness auto
termination
  by (relation "measure size") (auto dest: master_in_masters_size)

section \<open>The boolean aggregator\<close>

text \<open>
  What the pass calls through a virtual function or outside the sources:
  \<open>handle_master_change\<close> is virtual (the first argument is the control it is called
  on, the second the master); \<open>set_value_unchecked\<close> is declared in a header outside
  the sources and is a parameter, giving the master as the call leaves it and the
  \<open>Changed\<close> signals of the master that the call emits, in order; \<open>master_ratio\<close>
  and the session are those of the value computation.
\<close>

record environment =
  handle_master_change_of :: "control \<Rightarrow> control \<Rightarrow> bool"
  set_value_unchecked :: "real \<Rightarrow> control \<Rightarrow> control \<times> (bool \<times> GroupControlDisposition) list"
  master_ratio :: master_ratio_fn
  session :: Session

text \<open>
\<open>handle_master_change\<close> as this class defines it; a derived class can override it.
\<close>

definition handle_master_change :: "control \<Rightarrow> control \<Rightarrow> bool" where
  "handle_master_change c m = True"

text \<open>
  \<open>master_lock\<close> is a reader-writer lock of GLib, outside the repository. A reader
  try-lock fails only while a writer holds the lock: it succeeds on a free lock and on
  a lock held by readers, the calling thread among them.
\<close>

datatype lock_state = Unlocked | ReaderLocked | WriterLocked

definition reader_trylock :: "lock_state \<Rightarrow> bool" where
  "reader_trylock l = (l \<noteq> WriterLocked)"

text \<open>
  \<open>master_changed (from_self, gcd, wm)\<close>, the handler that \<open>add_master\<close> connects to
  the \<open>Changed\<close> signal of every master: the control as the handler leaves it, and
  whether the handler emits this control's \<open>Changed (false, NoGroup)\<close>.
\<close>

definition master_changed ::
  "environment \<Rightarrow> lock_state \<Rightarrow> control \<Rightarrow> control \<Rightarrow> control \<times> bool" where
  "master_changed env master_lock c m =
     (if \<not> reader_trylock master_lock then (c, False)
      else
        let send_signal = handle_master_change_of env c m
        in (update_boolean_masters_records (master_ratio env) (session env) c m, send_signal))"

text \<open>
  While the pass of a control visits one master, the control is held as a frame: its
  registry split at the record being visited. \<open>rebuild\<close> gives the control with the
  master's current state in that record; \<open>resplit\<close> reads the frame back from the
  control after a handler has changed it.
\<close>

record frame =
  fr_base :: AutomationControl
  fr_mute :: bool
  fr_node :: "XMLNode option"
  fr_seen :: "(ID \<times> control MasterRecord) list"
  fr_key :: ID
  fr_yn :: bool
  fr_val_ctrl :: real
  fr_val_master :: real
  fr_todo :: "(ID \<times> control MasterRecord) list"

definition rebuild :: "frame \<Rightarrow> control \<Rightarrow> control" where
  "rebuild fr m =
     Control (fr_base fr) (fr_mute fr)
       (fr_seen fr
        @ [(fr_key fr, MasterRecord m (fr_yn fr) (fr_val_ctrl fr) (fr_val_master fr))]
        @ fr_todo fr)
       (fr_node fr)"

definition resplit :: "frame \<Rightarrow> control \<Rightarrow> frame" where
  "resplit fr p =
     (case drop (length (fr_seen fr)) (masters p) of
        [] \<Rightarrow> fr
      | kr # rest \<Rightarrow>
          \<lparr>fr_base = base p, fr_mute = is_mute_control p, fr_node = masters_node p,
           fr_seen = take (length (fr_seen fr)) (masters p),
           fr_key = fst kr, fr_yn = yn (snd kr), fr_val_ctrl = val_ctrl (snd kr),
           fr_val_master = val_master (snd kr), fr_todo = rest\<rparr>)"

text \<open>
  A control emits \<open>Changed\<close>. Connected to the signal are the \<open>master_changed\<close>
  handlers of its slaves; in the tree the slave is the control whose pass is visiting
  the emitter (the innermost frame of the context), and it holds its lock as a reader.
  The handler runs at once, on the emitting thread; when it emits the slave's own
  \<open>Changed\<close>, that signal reaches the slave's slave in the same way. Subscribers
  outside the tree are not part of the model. \<open>emit_all\<close> emits several signals
  one after the other.
\<close>

fun emit_changed ::
  "environment \<Rightarrow> frame list \<Rightarrow> control \<Rightarrow> bool \<Rightarrow> GroupControlDisposition
     \<Rightarrow> frame list \<times> effect list" where
  "emit_changed env [] c from_self disp = ([], [Changed (self_id c) from_self disp])"
| "emit_changed env (fr # ctx) c from_self disp =
     (case master_changed env ReaderLocked (rebuild fr c) c of
        (p, send_signal) \<Rightarrow>
          if send_signal
          then (case emit_changed env ctx p False NoGroup of
                  (ctx', es) \<Rightarrow> (resplit fr p # ctx', Changed (self_id c) from_self disp # es))
          else (resplit fr p # ctx, [Changed (self_id c) from_self disp]))"

fun emit_all ::
  "environment \<Rightarrow> frame list \<Rightarrow> control \<Rightarrow> (bool \<times> GroupControlDisposition) list
     \<Rightarrow> frame list \<times> effect list" where
  "emit_all env ctx c [] = (ctx, [])"
| "emit_all env ctx c (sig # sigs) =
     (case emit_changed env ctx c (fst sig) (snd sig) of
        (ctx1, es1) \<Rightarrow>
          (case emit_all env ctx1 c sigs of (ctx2, es2) \<Rightarrow> (ctx2, es1 @ es2)))"

text \<open>
  The state of the loop of \<open>boolean_automation_run_locked\<close>: the context, this
  control with the records already visited and those still to visit, the flag
  \<open>rv\<close> and the effects so far. \<open>next_master\<close> closes the visit of a master.
\<close>

record pass_state =
  ps_ctx :: "frame list"
  ps_base :: AutomationControl
  ps_mute :: bool
  ps_node :: "XMLNode option"
  ps_seen :: "(ID \<times> control MasterRecord) list"
  ps_todo :: "(ID \<times> control MasterRecord) list"
  ps_rv :: bool
  ps_effects :: "effect list"

definition next_master :: "pass_state \<Rightarrow> frame \<Rightarrow> frame list \<Rightarrow> control \<Rightarrow> bool \<Rightarrow> effect list \<Rightarrow> pass_state" where
  "next_master st fr ctx ac rv es =
     \<lparr>ps_ctx = ctx, ps_base = fr_base fr, ps_mute = fr_mute fr, ps_node = fr_node fr,
      ps_seen = fr_seen fr @ [(fr_key fr, MasterRecord ac (fr_yn fr) (fr_val_ctrl fr)
                                          (fr_val_master fr))],
      ps_todo = fr_todo fr, ps_rv = rv, ps_effects = es\<rparr>"

text \<open>
  The body of the loop after the recursive call (the evaluation of the master's
  list, the comparison with the cached boolean and, on a flip, \<open>handle_master_change\<close>,
  \<open>set_yn\<close>, \<open>set_value_unchecked\<close> and the master's \<open>Changed (false, NoGroup)\<close>).
  \<open>nested\<close> is the result of the recursive call. \<open>automation_playback()\<close> of the
  master being true, its list exists. The context never loses a frame; the result
  \<open>None\<close> stands for that impossible case.
\<close>

definition visit_master ::
  "environment \<Rightarrow> framepos_t \<Rightarrow> pass_state \<Rightarrow> control
     \<Rightarrow> bool \<times> control \<times> frame list \<times> effect list \<Rightarrow> pass_state option" where
  "visit_master env start st ac nested =
     (case nested of
        (sub, ac1, [], es1) \<Rightarrow> None
      | (sub, ac1, fr1 # ctx1, es1) \<Rightarrow>
          (case (case alist (base ac) of
                   Some l \<Rightarrow> rt_safe_eval l start
                 | None \<Rightarrow> (0, False)) of
             (v, valid) \<Rightarrow>
               let yn' = (v \<ge> 1/2);
                   rv = (ps_rv st \<or> sub);
                   es = ps_effects st @ es1
               in if \<not> valid then Some (next_master st fr1 ctx1 ac1 rv es)
                  else if fr_yn fr1 \<noteq> yn'
                  then
                    (let send = handle_master_change_of env (rebuild fr1 ac1) ac1;
                         fr2 = fr1\<lparr>fr_yn := yn'\<rparr>
                     in case set_value_unchecked env (if yn' then 1 else 0) ac1 of
                          (ac2, sigs) \<Rightarrow>
                            (case emit_all env (fr2 # ctx1) ac2 (sigs @ [(False, NoGroup)]) of
                               ([], es3) \<Rightarrow> None
                             | (fr3 # ctx3, es3) \<Rightarrow>
                                 Some (next_master st fr3 ctx3 ac2 (rv \<or> send) (es @ es3))))
                  else Some (next_master st fr1 ctx1 ac1 rv es)))"

text \<open>
  \<open>boolean_automation_run\<close> and \<open>boolean_automation_run_locked\<close> return the flag,
  the control and the context as the pass leaves them, and the effects in order. The
  recursion goes through results of the recursion, so it is bounded by fuel: \<open>None\<close>
  is running out of fuel, and more fuel never changes a result.
\<close>

fun boolean_automation_run ::
  "nat \<Rightarrow> environment \<Rightarrow> frame list \<Rightarrow> control \<Rightarrow> framepos_t \<Rightarrow> nat
     \<Rightarrow> (bool \<times> control \<times> frame list \<times> effect list) option"
and boolean_automation_run_locked ::
  "nat \<Rightarrow> environment \<Rightarrow> frame list \<Rightarrow> control \<Rightarrow> framepos_t \<Rightarrow> nat
     \<Rightarrow> (bool \<times> control \<times> frame list \<times> effect list) option"
and masters_loop ::
  "nat \<Rightarrow> environment \<Rightarrow> pass_state \<Rightarrow> framepos_t \<Rightarrow> nat
     \<Rightarrow> (bool \<times> control \<times> frame list \<times> effect list) option"
where
  "boolean_automation_run 0 env ctx c start len = None"
| "boolean_automation_run (Suc n) env ctx c start len =
     (case boolean_automation_run_locked n env ctx c start len of
        None \<Rightarrow> None
      | Some (change, c1, ctx1, es) \<Rightarrow>
          if change
          then (case emit_changed env ctx1 c1 False NoGroup of
                  (ctx2, es2) \<Rightarrow>
                    Some (change, c1, ctx2,
                          [ReaderLock (self_id c)] @ es @ [ReaderUnlock (self_id c)] @ es2))
          else Some (change, c1, ctx1,
                     [ReaderLock (self_id c)] @ es @ [ReaderUnlock (self_id c)]))"
| "boolean_automation_run_locked 0 env ctx c start len = None"
| "boolean_automation_run_locked (Suc n) env ctx c start len =
     (if \<not> toggled (desc (base c)) then Some (False, c, ctx, [])
      else masters_loop n env
             \<lparr>ps_ctx = ctx, ps_base = base c, ps_mute = is_mute_control c,
              ps_node = masters_node c, ps_seen = [], ps_todo = masters c, ps_rv = False,
              ps_effects = []\<rparr> start len)"
| "masters_loop 0 env st start len = None"
| "masters_loop (Suc n) env st start len =
     (case ps_todo st of
        [] \<Rightarrow>
          Some (ps_rv st, Control (ps_base st) (ps_mute st) (ps_seen st) (ps_node st),
                ps_ctx st, ps_effects st)
      | kr # rest \<Rightarrow>
          let ac = master (snd kr) in
          if \<not> ac_automation_playback (base ac)
          then masters_loop n env (st\<lparr>ps_seen := ps_seen st @ [kr], ps_todo := rest\<rparr>) start len
          else if \<not> toggled (desc (base ac))
          then masters_loop n env (st\<lparr>ps_seen := ps_seen st @ [kr], ps_todo := rest\<rparr>) start len
          else
            let fr = \<lparr>fr_base = ps_base st, fr_mute = ps_mute st, fr_node = ps_node st,
                      fr_seen = ps_seen st, fr_key = fst kr, fr_yn = yn (snd kr),
                      fr_val_ctrl = val_ctrl (snd kr), fr_val_master = val_master (snd kr),
                      fr_todo = rest\<rparr>
            in case (if is_mute_control ac
                     then boolean_automation_run n env (fr # ps_ctx st) ac start len
                     else Some (False, ac, fr # ps_ctx st, [])) of
                 None \<Rightarrow> None
               | Some nested \<Rightarrow>
                   (case visit_master env start st ac nested of
                      None \<Rightarrow> None
                    | Some st' \<Rightarrow> masters_loop n env st' start len))"

text \<open>
The effect is the \<open>Changed\<close> signal of a given control.
\<close>

definition is_changed_of :: "ID \<Rightarrow> effect \<Rightarrow> bool" where
  "is_changed_of i e = (case e of Changed j from_self disp \<Rightarrow> j = i | _ \<Rightarrow> False)"

section \<open>Persistence\<close>

text \<open>
  Modelled from the spec: the XML node operations are PBD's and outside the sources.
  \<open>set_property\<close> replaces a property of the same name or appends one,
  \<open>add_child_nocopy\<close> appends a child, \<open>get_property\<close> reads a property at a
  type and fails (leaving the variable as it was) when it is missing.
\<close>

fun update_property ::
  "string \<Rightarrow> PropertyValue \<Rightarrow> (string \<times> PropertyValue) list \<Rightarrow> (string \<times> PropertyValue) list" where
  "update_property k v [] = [(k, v)]"
| "update_property k v ((k', v') # ps) =
     (if k = k' then (k, v) # ps else (k', v') # update_property k v ps)"

fun set_property :: "string \<Rightarrow> PropertyValue \<Rightarrow> XMLNode \<Rightarrow> XMLNode" where
  "set_property k v (XMLNode n ps cs) = XMLNode n (update_property k v ps) cs"

fun add_child_nocopy :: "XMLNode \<Rightarrow> XMLNode \<Rightarrow> XMLNode" where
  "add_child_nocopy child (XMLNode n ps cs) = XMLNode n ps (cs @ [child])"

definition get_property_bool :: "string \<Rightarrow> XMLNode \<Rightarrow> bool option" where
  "get_property_bool k n =
     (case map_of (properties n) k of Some (PBool b) \<Rightarrow> Some b | _ \<Rightarrow> None)"

definition get_property_double :: "string \<Rightarrow> XMLNode \<Rightarrow> real option" where
  "get_property_double k n =
     (case map_of (properties n) k of Some (PDouble v) \<Rightarrow> Some v | _ \<Rightarrow> None)"

definition get_property_id :: "string \<Rightarrow> XMLNode \<Rightarrow> ID option" where
  "get_property_id k n =
     (case map_of (properties n) k of Some (PID i) \<Rightarrow> Some i | _ \<Rightarrow> None)"

text \<open>
\<open>MasterRecord::set_state\<close>: each of the three properties is read if present.
\<close>

fun MasterRecord_set_state :: "XMLNode \<Rightarrow> 'c MasterRecord \<Rightarrow> 'c MasterRecord" where
  "MasterRecord_set_state n (MasterRecord m y vc vm) =
     MasterRecord m
       (case get_property_bool ''yn'' n of Some b \<Rightarrow> b | None \<Rightarrow> y)
       (case get_property_double ''val-ctrl'' n of Some v \<Rightarrow> v | None \<Rightarrow> vc)
       (case get_property_double ''val-master'' n of Some v \<Rightarrow> v | None \<Rightarrow> vm)"

text \<open>
\<open>use_saved_master_ratios ()\<close>.
\<close>

definition use_saved_master_ratios :: "control \<Rightarrow> control" where
  "use_saved_master_ratios c =
     (case masters_node c of
        None \<Rightarrow> c
      | Some saved \<Rightarrow>
          Control (base c) (is_mute_control c)
            (fold (\<lambda>niter ms.
                     case get_property_id ''id'' niter of
                       None \<Rightarrow> ms
                     | Some id_val \<Rightarrow>
                         (case map_of ms id_val of
                            None \<Rightarrow> ms
                          | Some r \<Rightarrow> masters_modify id_val (MasterRecord_set_state niter) ms))
               (children saved) (masters c))
            None)"

text \<open>
  \<open>get_state ()\<close>. The node returned by \<open>AutomationControl::get_state\<close>, which is
  outside the sources, is the parameter \<open>node\<close>; \<open>master_node\<close> is the body of the
  loop that builds one \<open>master\<close> child.
\<close>

definition master_node :: "bool \<Rightarrow> control MasterRecord \<Rightarrow> XMLNode" where
  "master_node tg r =
     (let mnode = set_property ''id'' (PID (self_id (master r))) (XMLNode ''master'' [] [])
      in if tg then set_property ''yn'' (PBool (yn r)) mnode
         else set_property ''val-master'' (PDouble (val_master r))
                (set_property ''val-ctrl'' (PDouble (val_ctrl r)) mnode))"

definition get_state :: "XMLNode \<Rightarrow> control \<Rightarrow> XMLNode" where
  "get_state node c =
     (if masters c \<noteq> [] then
        add_child_nocopy
          (fold (\<lambda>kr masters_node. add_child_nocopy (master_node (toggled (desc (base c))) (snd kr))
                                      masters_node)
             (masters c) (XMLNode ''masters'' [] []))
          node
      else node)"

text \<open>
  \<open>set_state (node, version)\<close>: every child named \<open>masters\<close> replaces the stash, so
  the last one stays. \<open>AutomationControl::set_state\<close>, outside the sources, is the
  parameter \<open>base_set_state\<close>; it acts on the base-class sub-object.
\<close>

definition set_state ::
  "(XMLNode \<Rightarrow> AutomationControl \<Rightarrow> AutomationControl) \<Rightarrow> XMLNode \<Rightarrow> control \<Rightarrow> control" where
  "set_state base_set_state node c =
     Control (base_set_state node (base c)) (is_mute_control c) (masters c)
       (fold (\<lambda>niter saved. if node_name niter = ''masters'' then Some niter else saved)
          (children node) (masters_node c))"

section \<open>Concrete inputs\<close>

text \<open>
  An instance of the ratio parameter for concrete evaluations: the master's current raw
  value relative to the snapshot \<open>val_master\<close> taken at attach time (the value itself
  when the snapshot is 0). It is used with masters that have no masters of their own
  and are not in playback, whose value is their raw value.
\<close>

definition value_ratio :: master_ratio_fn where
  "value_ratio s r =
     (if val_master r = 0 then user_value (base (master r))
      else user_value (base (master r)) / val_master r)"

text \<open>
  An instance of \<open>base_set\<close> for concrete evaluations: store the value as the raw
  value and signal \<open>Changed\<close> when it differs from the previous one.
\<close>

definition store_value :: "real \<Rightarrow> GroupControlDisposition \<Rightarrow> control \<Rightarrow> control \<times> effect list" where
  "store_value v disp c =
     (set_double v c, if user_value (base c) \<noteq> v then [Changed (self_id c) True disp] else [])"

text \<open>
  \<open>plain_control i tg v\<close> is a control without list and without masters, off = 0 and
  on = 1; \<open>playing_list v\<close> is a list in playback whose envelope is constantly \<open>v\<close>.
\<close>

definition plain_control :: "ID \<Rightarrow> bool \<Rightarrow> real \<Rightarrow> control" where
  "plain_control i tg v =
     Control \<lparr>ac_id = i, desc = \<lparr>lower = 0, upper = 1, toggled = tg\<rparr>, user_value = v,
              alist = None\<rparr> False [] None"

definition playing_list :: "real \<Rightarrow> AutomationList" where
  "playing_list v =
     \<lparr>automation_playback = True, eval = (\<lambda>t. v), rt_safe_eval = (\<lambda>t. (v, True)),
      rt_safe_get_vector = (\<lambda>a b n. None)\<rparr>"

definition session0 :: Session where
  "session0 = \<lparr>transport_frame = 0, deletion_in_progress = False\<rparr>"

text \<open>
  A continuous control in playback (raw value 4/5, envelope 3/10) with one master at
  ratio 1/2; scenario A of the specification (the same without playback); scenario B
  (toggled, off, one master on and one off); a toggled control that is on with a master
  that is off.
\<close>

definition c1_control :: control where
  "c1_control =
     Control \<lparr>ac_id = 1, desc = \<lparr>lower = 0, upper = 2, toggled = False\<rparr>, user_value = 4/5,
              alist = Some (playing_list (3/10))\<rparr> False
       [(2, MasterRecord (plain_control 2 False (1/2)) False (4/5) 1)] None"

definition scenario_a :: control where
  "scenario_a =
     Control \<lparr>ac_id = 1, desc = \<lparr>lower = 0, upper = 2, toggled = False\<rparr>, user_value = 4/5,
              alist = None\<rparr> False
       [(2, MasterRecord (plain_control 2 False (1/2)) False (4/5) 1)] None"

definition c2_control :: control where
  "c2_control =
     Control \<lparr>ac_id = 1, desc = \<lparr>lower = 0, upper = 1, toggled = True\<rparr>, user_value = 0,
              alist = None\<rparr> False
       [(2, MasterRecord (plain_control 2 True 1) True 0 1),
        (3, MasterRecord (plain_control 3 True 0) False 0 0)] None"


text \<open>
  Controls for attaching: a continuous control with one master at ratio 1/2; one whose
  master is at ratio 0 and whose lower bound is above 0; a toggled control whose record
  caches "on" for a master that is off.
\<close>

definition c4_control :: control where
  "c4_control =
     Control \<lparr>ac_id = 1, desc = \<lparr>lower = 0, upper = 2, toggled = False\<rparr>, user_value = 4/5,
              alist = None\<rparr> False
       [(2, MasterRecord (plain_control 2 False (1/2)) False (4/5) 1)] None"

definition c5_zero :: control where
  "c5_zero =
     Control \<lparr>ac_id = 1, desc = \<lparr>lower = 1/10, upper = 2, toggled = False\<rparr>, user_value = 4/5,
              alist = None\<rparr> False
       [(2, MasterRecord (plain_control 2 False 0) False (4/5) 1)] None"


text \<open>
  A master whose curve evaluates (every sample 2) under a control whose own curve does
  not; scenario C of the specification: two masters in playback whose envelopes have
  gone to "on" while the records still cache "off".
\<close>

definition curve_master :: control where
  "curve_master =
     Control \<lparr>ac_id = 2, desc = \<lparr>lower = 0, upper = 2, toggled = False\<rparr>, user_value = 1/2,
              alist = Some \<lparr>automation_playback = False, eval = (\<lambda>t. 0),
                            rt_safe_eval = (\<lambda>t. (0, False)),
                            rt_safe_get_vector = (\<lambda>a b n. Some (\<lambda>j. 2))\<rparr>\<rparr> False [] None"

definition curve_slave :: control where
  "curve_slave =
     Control \<lparr>ac_id = 1, desc = \<lparr>lower = 0, upper = 2, toggled = False\<rparr>, user_value = 1/2,
              alist = Some \<lparr>automation_playback = False, eval = (\<lambda>t. 0),
                            rt_safe_eval = (\<lambda>t. (0, False)),
                            rt_safe_get_vector = (\<lambda>a b n. None)\<rparr>\<rparr> False
       [(2, MasterRecord curve_master False (1/2) 1)] None"

definition scenario_c :: control where
  "scenario_c =
     Control \<lparr>ac_id = 1, desc = \<lparr>lower = 0, upper = 1, toggled = True\<rparr>, user_value = 0,
              alist = None\<rparr> False
       [(2, MasterRecord
              (Control \<lparr>ac_id = 2, desc = \<lparr>lower = 0, upper = 1, toggled = True\<rparr>,
                        user_value = 0, alist = Some (playing_list 1)\<rparr> False [] None)
              False 0 0),
        (3, MasterRecord
              (Control \<lparr>ac_id = 3, desc = \<lparr>lower = 0, upper = 1, toggled = True\<rparr>,
                        user_value = 0, alist = Some (playing_list 1)\<rparr> False [] None)
              False 0 0)] None"

text \<open>
Controls as serialised, and as found when the saved state is applied.
\<close>

definition c8_toggled :: control where
  "c8_toggled =
     Control \<lparr>ac_id = 1, desc = \<lparr>lower = 0, upper = 1, toggled = True\<rparr>, user_value = 0,
              alist = None\<rparr> False
       [(2, MasterRecord (plain_control 2 True 1) True 0 0),
        (3, MasterRecord (plain_control 3 True 0) False 0 1)] None"

definition c8_toggled_reattached :: control where
  "c8_toggled_reattached =
     Control \<lparr>ac_id = 1, desc = \<lparr>lower = 0, upper = 1, toggled = True\<rparr>, user_value = 0,
              alist = None\<rparr> False
       [(2, MasterRecord (plain_control 2 True 0) False 0 0),
        (3, MasterRecord (plain_control 3 True 0) False 0 0)] None"

definition c8_continuous :: control where
  "c8_continuous =
     Control \<lparr>ac_id = 1, desc = \<lparr>lower = 0, upper = 2, toggled = False\<rparr>, user_value = 4/5,
              alist = None\<rparr> False
       [(2, MasterRecord (plain_control 2 False (1/2)) False (4/5) 1)] None"

definition c8_continuous_reattached :: control where
  "c8_continuous_reattached =
     Control \<lparr>ac_id = 1, desc = \<lparr>lower = 0, upper = 2, toggled = False\<rparr>, user_value = 1,
              alist = None\<rparr> False
       [(2, MasterRecord (plain_control 2 False (1/2)) False 1 (1/2))] None"

text \<open>
  Two instances of \<open>set_value_unchecked\<close>: both store the value as the master's raw
  value; the first signals \<open>Changed (true, NoGroup)\<close> when the value differs from the
  previous one, the second never signals. \<open>env0\<close> takes \<open>handle_master_change\<close> of
  this class.
\<close>

definition store_unchecked ::
  "real \<Rightarrow> control \<Rightarrow> control \<times> (bool \<times> GroupControlDisposition) list" where
  "store_unchecked v c = (set_double v c, if user_value (base c) \<noteq> v then [(True, NoGroup)] else [])"

definition store_silently ::
  "real \<Rightarrow> control \<Rightarrow> control \<times> (bool \<times> GroupControlDisposition) list" where
  "store_silently v c = (set_double v c, [])"

definition env0 :: "(real \<Rightarrow> control \<Rightarrow> control \<times> (bool \<times> GroupControlDisposition) list) \<Rightarrow> environment" where
  "env0 svu = \<lparr>handle_master_change_of = handle_master_change, set_value_unchecked = svu,
               master_ratio = value_ratio, session = session0\<rparr>"

section \<open>Properties of the value computation\<close>

lemma fold_ratio_product:
  "fold (\<lambda>kr v. v * f kr) xs (a::real) = a * prod_list (map f xs)"
  by (induction xs arbitrary: a) (simp_all add: mult.assoc)

lemma get_double_user [simp]: "get_double False t b = user_value b"
  by (simp add: get_double_def split: option.split)

lemma get_masters_value_locked_continuous:
  "\<not> toggled (desc (base c)) \<Longrightarrow>
   get_masters_value_locked mr s c = prod_list (map (\<lambda>kr. mr s (snd kr)) (masters c))"
  by (cases c) (simp add: fold_ratio_product)

lemma get_value_locked_continuous:
  "\<not> toggled (desc (base c)) \<Longrightarrow>
   get_value_locked mr s c
     = user_value (base c) * prod_list (map (\<lambda>kr. mr s (snd kr)) (masters c))"
  by (cases c) (simp add: fold_ratio_product)

lemma get_value_locked_no_masters:
  "masters c = [] \<Longrightarrow> get_value_locked mr s c = user_value (base c)"
  by (cases c) simp


text \<open>
  C1, as stated, at a continuous control in automation playback: raw value 4/5, one
  master whose ratio is 1/2, envelope value 3/10 at the transport position. The result
  is 3/20, the raw value times the ratio is 2/5.
\<close>

theorem C1_playback_counterexample:
  "get_value value_ratio session0 c1_control
     \<noteq> user_value (base c1_control)
        * prod_list (map (\<lambda>kr. value_ratio session0 (snd kr)) (masters c1_control))"
  by (simp add: c1_control_def plain_control_def playing_list_def session0_def value_ratio_def
      ac_automation_playback_def get_double_def)

text \<open>
  C1 (amended): outside automation playback a continuous control reads as its raw value
  times the product of its masters' ratios, and a control without masters reads as its
  raw value; in automation playback the envelope value at the transport position takes
  the place of the raw value of a continuous control.
\<close>

theorem C1_get_value_product:
  "(\<not> toggled (desc (base c)) \<and> \<not> ac_automation_playback (base c) \<longrightarrow>
      get_value mr s c
        = user_value (base c) * prod_list (map (\<lambda>kr. mr s (snd kr)) (masters c)))
   \<and> (masters c = [] \<and> \<not> ac_automation_playback (base c) \<longrightarrow>
      get_value mr s c = user_value (base c))
   \<and> (\<not> toggled (desc (base c)) \<and> ac_automation_playback (base c) \<longrightarrow>
      get_value mr s c
        = get_double True (real_of_int (transport_frame s)) (base c)
          * prod_list (map (\<lambda>kr. mr s (snd kr)) (masters c)))"
  by (cases c) (simp add: fold_ratio_product)

theorem C1_get_value_product_witness:
  "get_value value_ratio session0
     (Control \<lparr>ac_id = 1, desc = \<lparr>lower = 0, upper = 2, toggled = False\<rparr>, user_value = 4/5,
               alist = None\<rparr> False
        [(2, MasterRecord (plain_control 2 False (1/2)) False (4/5) 1)] None) = 2/5
   \<and> get_value value_ratio session0 (plain_control 1 False (4/5)) = 4/5
   \<and> get_value value_ratio session0 c1_control = 3/20"
  using C1_get_value_product [of
      "Control \<lparr>ac_id = 1, desc = \<lparr>lower = 0, upper = 2, toggled = False\<rparr>, user_value = 4/5,
                alist = None\<rparr> False
        [(2, MasterRecord (plain_control 2 False (1/2)) False (4/5) 1)] None"
      value_ratio session0]
    C1_get_value_product [of "plain_control 1 False (4/5)" value_ratio session0]
    C1_get_value_product [of c1_control value_ratio session0]
  by (simp add: c1_control_def plain_control_def playing_list_def session0_def value_ratio_def
      ac_automation_playback_def get_double_def)

text \<open>
  A toggled control with masters whose own state is off reads as 0 whatever its masters
  are: the last line of \<open>get_value_locked\<close> multiplies by the raw value.
\<close>

lemma get_value_toggled_self_off:
  "toggled (desc (base c)) \<Longrightarrow> masters c \<noteq> [] \<Longrightarrow> \<not> ac_automation_playback (base c) \<Longrightarrow>
   user_value (base c) = 0 \<Longrightarrow> get_value mr s c = 0"
  by (cases c) simp

text \<open>
  C2: a toggled control with masters reads as on exactly when it is on itself or one of
  its masters is on. The code at scenario B of the specification (own state off, one
  master on, one master off; off is 0, on is 1, no playback): \<open>get_value_locked\<close>
  multiplies the raw value 0 by the masters' value and returns 0, which is off.
\<close>

theorem C2_self_off_master_on_reads_off:
  "get_value value_ratio session0 c2_control = 0
   \<and> upper (desc (base c2_control)) = 1
   \<and> user_value (base c2_control) = 0
   \<and> get_value value_ratio session0 (plain_control 2 True 1) = 1"
  by (simp add: c2_control_def plain_control_def session0_def ac_automation_playback_def)

section \<open>Properties of the registry\<close>

lemma masters_insert_absent:
  "map_of ms k = None \<Longrightarrow>
   map_of (fst (masters_insert k v ms)) k = Some v \<and> snd (masters_insert k v ms)"
  by (induction ms) (auto simp: Let_def split: if_splits)

lemma map_of_masters_modify:
  "map_of (masters_modify k f ms) k' = (if k' = k then map_option f (map_of ms k) else map_of ms k')"
  by (induction ms) auto

lemma keys_masters_modify [simp]: "map fst (masters_modify k f ms) = map fst ms"
  by (induction ms) auto

lemma masters_insert_keys_only:
  "map fst ms = map fst ms' \<Longrightarrow> snd (masters_insert k v ms) = snd (masters_insert k v' ms')"
proof (induction ms arbitrary: ms')
  case Nil
  then show ?case by simp
next
  case (Cons a ms)
  then obtain a' ms1 where m: "ms' = a' # ms1" "fst a = fst a'" "map fst ms = map fst ms1"
    by (cases ms') auto
  from Cons.IH [OF m(3)] m show ?case
    by (cases a; cases a') (simp add: Let_def)
qed

lemma masters_insert_found:
  "\<not> snd (masters_insert k v ms) \<Longrightarrow> fst (masters_insert k v ms) = ms"
  by (induction ms) (auto simp: Let_def split: if_splits)

lemma masters_insert_again:
  "\<not> snd (masters_insert k v' (fst (masters_insert k v ms)))"
proof (induction ms)
  case Nil
  then show ?case by simp
next
  case (Cons a ms)
  obtain k' w where a: "a = (k', w)" by (cases a)
  consider "k = k'" | "k < k'" | "k' < k" by linarith
  then show ?case
  proof cases
    case 1
    with a show ?thesis by simp
  next
    case 2
    with a show ?thesis by simp
  next
    case 3
    with a Cons show ?thesis by (simp add: Let_def)
  qed
qed


lemma base_update_boolean [simp]:
  "base (update_boolean_masters_records mr s c m) = base c"
  by (simp add: update_boolean_masters_records_def split: option.split)

lemma keys_update_boolean [simp]:
  "map fst (masters (update_boolean_masters_records mr s c m)) = map fst (masters c)"
  by (simp add: update_boolean_masters_records_def split: option.split)

lemma val_set_yn [simp]:
  "val_ctrl (set_yn y r) = val_ctrl r" "val_master (set_yn y r) = val_master r"
  "master (set_yn y r) = master r" "yn (set_yn y r) = y"
  by (cases r; simp)+

lemma map_of_update_boolean:
  "map_of (masters (update_boolean_masters_records mr s c m)) k
     = (if toggled (desc (base c)) \<and> k = self_id m
        then map_option (set_yn (get_value mr s m \<noteq> 0)) (map_of (masters c) k)
        else map_of (masters c) k)"
  by (auto simp: update_boolean_masters_records_def map_of_masters_modify split: option.split)





text \<open>
  The operations keep the invariants of the registry: the keys stay strictly ascending
  across \<open>add_master\<close>, \<open>remove_master\<close> and \<open>clear_masters\<close>, and every key
  stays the identity of the master its record points to across \<open>add_master\<close>.
\<close>

lemma keys_masters_insert:
  "set (map fst (fst (masters_insert k v ms))) = insert k (set (map fst ms))"
proof (induction ms)
  case Nil
  then show ?case by simp
next
  case (Cons a ms)
  obtain k' w where a: "a = (k', w)" by (cases a)
  consider "k = k'" | "k < k'" | "k' < k" by linarith
  then show ?case
  proof cases
    case 1
    with a show ?thesis by auto
  next
    case 2
    with a show ?thesis by auto
  next
    case 3
    then have "fst (masters_insert k v (a # ms)) = a # fst (masters_insert k v ms)"
      using a by (simp add: Let_def)
    with Cons.IH show ?thesis by auto
  qed
qed

lemma sorted_masters_insert:
  "sorted_wrt (<) (map fst ms) \<Longrightarrow> sorted_wrt (<) (map fst (fst (masters_insert k v ms)))"
proof (induction ms)
  case Nil
  then show ?case by simp
next
  case (Cons a ms)
  obtain k' w where a: "a = (k', w)" by (cases a)
  consider "k = k'" | "k < k'" | "k' < k" by linarith
  then show ?case
  proof cases
    case 1
    with a Cons.prems show ?thesis by simp
  next
    case 2
    with a Cons.prems show ?thesis by auto
  next
    case 3
    from Cons.prems a have "\<forall>x\<in>set (map fst (fst (masters_insert k v ms))). k' < x"
      using 3 by (simp only: keys_masters_insert) auto
    with 3 a Cons show ?thesis by (simp add: Let_def)
  qed
qed

lemma masters_sorted_add_master:
  "masters_sorted c \<Longrightarrow> masters_sorted (fst (add_master mr s c m l))"
  by (simp add: masters_sorted_def add_master_def Let_def sorted_masters_insert)

lemma masters_sorted_remove_master:
  "masters_sorted c \<Longrightarrow> masters_sorted (fst (remove_master mr s c m))"
  by (simp add: masters_sorted_def remove_master_def masters_erase_def Let_def set_double_def
      sorted_wrt_map sorted_wrt_filter)

lemma masters_sorted_clear_masters:
  "masters_sorted c \<Longrightarrow> masters_sorted (fst (clear_masters mr s c))"
  by (simp add: masters_sorted_def clear_masters_def Let_def set_double_def)

lemma set_masters_insert:
  "set (fst (masters_insert k v ms)) \<subseteq> insert (k, v) (set ms)"
  by (induction ms) (auto simp: Let_def split: if_splits)

lemma masters_modify_set_yn:
  "kr \<in> set (masters_modify k (set_yn y) ms) \<Longrightarrow>
   \<exists>kr'\<in>set ms. fst kr = fst kr' \<and> master (snd kr) = master (snd kr')"
  by (induction ms) (auto split: if_splits)

lemma keys_are_ids_add_master:
  assumes "\<forall>kr\<in>set (masters c). fst kr = self_id (master (snd kr))"
  shows "\<forall>kr\<in>set (masters (fst (add_master mr s c m l))). fst kr = self_id (master (snd kr))"
proof -
  let ?ins = "fst (masters_insert (self_id m)
      (MasterRecord m False (get_value_locked mr s c) (get_value mr s m)) (masters c))"
  have i: "\<forall>kr\<in>set ?ins. fst kr = self_id (master (snd kr))"
    using assms set_masters_insert [of "self_id m"
        "MasterRecord m False (get_value_locked mr s c) (get_value mr s m)" "masters c"]
    by auto
  show ?thesis
  proof
    fix kr
    assume "kr \<in> set (masters (fst (add_master mr s c m l)))"
    then have "kr \<in> set ?ins \<or> (\<exists>y. kr \<in> set (masters_modify (self_id m) (set_yn y) ?ins))"
      by (auto simp: add_master_def Let_def update_boolean_masters_records_def
          split: if_splits option.splits)
    then show "fst kr = self_id (master (snd kr))"
      using i masters_modify_set_yn by fastforce
  qed
qed

section \<open>Detaching masters\<close>






section \<open>Attaching masters\<close>

text \<open>
  C4, as stated, at a continuous control with raw value 4/5 that already has a master
  whose ratio is 1/2: the record made for a second master holds 2/5 in \<open>val_ctrl\<close>,
  not the raw value.
\<close>

theorem C4_val_ctrl_counterexample:
  "map_option val_ctrl
     (map_of (masters (fst (add_master value_ratio session0 c4_control
                              (plain_control 3 False 1) False))) 3)
     \<noteq> Some (user_value (base c4_control))"
  by (simp add: add_master_def c4_control_def plain_control_def session0_def value_ratio_def
      self_id_def update_boolean_masters_records_def Let_def)

text \<open>
  C4 (amended): when \<open>m\<close> is not yet in the registry, \<open>add_master (m)\<close> makes a
  record for it whose \<open>val_ctrl\<close> is \<open>get_value_locked()\<close> of this control at
  attach time (the raw value when no master was attached before, otherwise with the
  contribution of the masters already attached) and whose \<open>val_master\<close> is
  \<open>m->get_value()\<close> at attach time.
\<close>

theorem C4_attach_snapshots:
  assumes "map_of (masters c) (self_id m) = None"
  shows "map_option master (map_of (masters (fst (add_master mr s c m l))) (self_id m)) = Some m
   \<and> map_option val_ctrl (map_of (masters (fst (add_master mr s c m l))) (self_id m))
       = Some (get_value_locked mr s c)
   \<and> map_option val_master (map_of (masters (fst (add_master mr s c m l))) (self_id m))
       = Some (get_value mr s m)
   \<and> (masters c = [] \<longrightarrow> get_value_locked mr s c = user_value (base c))"
  using masters_insert_absent [OF assms,
      of "MasterRecord m False (get_value_locked mr s c) (get_value mr s m)"]
  by (simp add: add_master_def Let_def map_of_update_boolean get_value_locked_no_masters)

theorem C4_attach_snapshots_witness:
  "map_of (masters c4_control) (self_id (plain_control 3 False 1)) = None
   \<and> map_option val_ctrl
       (map_of (masters (fst (add_master value_ratio session0 c4_control
                                (plain_control 3 False 1) False))) 3) = Some (2/5)
   \<and> map_option val_master
       (map_of (masters (fst (add_master value_ratio session0 c4_control
                                (plain_control 3 False 1) False))) 3) = Some 1"
proof -
  have h: "map_of (masters c4_control) (self_id (plain_control 3 False 1)) = None"
    by (simp add: c4_control_def plain_control_def self_id_def)
  have i: "self_id (plain_control 3 False 1) = 3" by (simp add: plain_control_def self_id_def)
  have v: "get_value_locked value_ratio session0 c4_control = 2/5"
    by (simp add: c4_control_def plain_control_def value_ratio_def)
  have w: "get_value value_ratio session0 (plain_control 3 False 1) = 1"
    by (simp add: plain_control_def ac_automation_playback_def)
  from C4_attach_snapshots [OF h, of value_ratio session0 False] h i v w
  show ?thesis by simp
qed

lemma add_master_second:
  assumes "self_id m' = self_id m"
  shows "\<not> snd (masters_insert (self_id m') v (masters (fst (add_master mr s c m l))))"
proof -
  have "map fst (masters (fst (add_master mr s c m l)))
      = map fst (fst (masters_insert (self_id m)
          (MasterRecord m False (get_value_locked mr s c) (get_value mr s m)) (masters c)))"
    by (simp add: add_master_def Let_def)
  from masters_insert_keys_only [OF this, of "self_id m" v v]
  show ?thesis using assms by (simp add: masters_insert_again)
qed

lemma self_id_add_master [simp]: "self_id (fst (add_master mr s c m l)) = self_id c"
  by (simp add: add_master_def Let_def self_id_def)

lemma add_master_when_found:
  assumes "\<not> snd (masters_insert (self_id m) (MasterRecord m False (get_value_locked mr s c) (get_value mr s m)) (masters c))"
  shows "add_master mr s c m l
     = (update_boolean_masters_records mr s c m, [Post_add_master (self_id c) (self_id m)])"
  using assms masters_insert_found [OF assms]
  by (cases c) (simp add: add_master_def Let_def)

text \<open>
  C6: attaching the same master (the same identity) a second time leaves the keys and
  the size of the registry as the first attach made them, makes no connection and emits
  no \<open>MasterStatusChange\<close>: the only effect is the call of the hook.
\<close>

theorem C6_attach_idempotent:
  assumes "self_id m' = self_id m"
  shows "map fst (masters (fst (add_master mr s' (fst (add_master mr s c m l)) m' l')))
       = map fst (masters (fst (add_master mr s c m l)))
   \<and> length (masters (fst (add_master mr s' (fst (add_master mr s c m l)) m' l')))
       = length (masters (fst (add_master mr s c m l)))
   \<and> snd (add_master mr s' (fst (add_master mr s c m l)) m' l')
       = [Post_add_master (self_id c) (self_id m)]
   \<and> length (filter (\<lambda>e. e = MasterStatusChange (self_id c))
        (snd (add_master mr s c m l) @ snd (add_master mr s' (fst (add_master mr s c m l)) m' l')))
       = length (filter (\<lambda>e. e = MasterStatusChange (self_id c)) (snd (add_master mr s c m l)))"
proof -
  let ?c1 = "fst (add_master mr s c m l)"
  have e: "add_master mr s' ?c1 m' l'
      = (update_boolean_masters_records mr s' ?c1 m', [Post_add_master (self_id c) (self_id m)])"
    using add_master_when_found [OF add_master_second [OF assms], of mr s' mr s c l l'] assms
    by simp
  have k: "map fst (masters (fst (add_master mr s' ?c1 m' l'))) = map fst (masters ?c1)"
    by (simp add: e)
  from k have "length (map fst (masters (fst (add_master mr s' ?c1 m' l'))))
      = length (map fst (masters ?c1))" by simp
  then have n: "length (masters (fst (add_master mr s' ?c1 m' l'))) = length (masters ?c1)"
    by simp
  from k n e show ?thesis by simp
qed

theorem C6_attach_idempotent_witness:
  "self_id (plain_control 3 False 1) = self_id (plain_control 3 False 1)
   \<and> length (masters (fst (add_master value_ratio session0 c4_control
        (plain_control 3 False 1) False))) = 2
   \<and> length (masters (fst (add_master value_ratio session0
        (fst (add_master value_ratio session0 c4_control (plain_control 3 False 1) False))
        (plain_control 3 False 1) False))) = 2
   \<and> snd (add_master value_ratio session0 c4_control (plain_control 3 False 1) False)
       = [Connect_DropReferences 1 3, Connect_Changed 1 3, MasterStatusChange 1,
          Post_add_master 1 3]
   \<and> snd (add_master value_ratio session0
        (fst (add_master value_ratio session0 c4_control (plain_control 3 False 1) False))
        (plain_control 3 False 1) False) = [Post_add_master 1 3]"
proof -
  have i: "self_id c4_control = 1" "self_id (plain_control 3 False 1) = 3"
    by (simp_all add: c4_control_def plain_control_def self_id_def)
  have a: "length (masters (fst (add_master value_ratio session0 c4_control
        (plain_control 3 False 1) False))) = 2"
    by (simp add: add_master_def c4_control_def plain_control_def self_id_def Let_def
        update_boolean_masters_records_def)
  have b: "snd (add_master value_ratio session0 c4_control (plain_control 3 False 1) False)
       = [Connect_DropReferences 1 3, Connect_Changed 1 3, MasterStatusChange 1,
          Post_add_master 1 3]"
    by (simp add: add_master_def c4_control_def plain_control_def self_id_def Let_def)
  from C6_attach_idempotent [of "plain_control 3 False 1" "plain_control 3 False 1"
      value_ratio session0 session0 c4_control False False] i a b
  show ?thesis by simp
qed



section \<open>Back-solving the raw value\<close>

text \<open>
  C5: for a continuous control with masters, \<open>actually_set_value\<close> hands the base
  setter the requested value divided by the masters' combined ratio and clamped by
  \<open>max (lower, min (upper, .))\<close>, which lies in \<open>[lower, upper]\<close>; when the
  combined ratio is 0 it hands over 0, without dividing or clamping; for a toggled
  control it hands over the requested value.
\<close>

theorem C5_back_solve:
  "(\<not> toggled (desc (base c)) \<and> masters c \<noteq> [] \<and> get_masters_value_locked mr s c \<noteq> 0 \<longrightarrow>
      actually_set_value base_set mr s v d c
        = base_set (max (lower (desc (base c)))
                     (min (upper (desc (base c))) (v / get_masters_value_locked mr s c))) d c)
   \<and> (\<not> toggled (desc (base c)) \<and> masters c \<noteq> [] \<and> get_masters_value_locked mr s c = 0 \<longrightarrow>
      actually_set_value base_set mr s v d c = base_set 0 d c)
   \<and> (toggled (desc (base c)) \<longrightarrow> actually_set_value base_set mr s v d c = base_set v d c)
   \<and> (\<not> toggled (desc (base c)) \<longrightarrow>
      get_masters_value_locked mr s c = prod_list (map (\<lambda>kr. mr s (snd kr)) (masters c)))
   \<and> (lower (desc (base c)) \<le> upper (desc (base c)) \<longrightarrow>
      lower (desc (base c)) \<le> max (lower (desc (base c))) (min (upper (desc (base c))) x)
      \<and> max (lower (desc (base c))) (min (upper (desc (base c))) x) \<le> upper (desc (base c)))"
proof (intro conjI impI)
  assume "\<not> toggled (desc (base c)) \<and> masters c \<noteq> [] \<and> get_masters_value_locked mr s c \<noteq> 0"
  then show "actually_set_value base_set mr s v d c
        = base_set (max (lower (desc (base c)))
                     (min (upper (desc (base c))) (v / get_masters_value_locked mr s c))) d c"
    by (simp add: actually_set_value_def Let_def)
next
  assume "\<not> toggled (desc (base c)) \<and> masters c \<noteq> [] \<and> get_masters_value_locked mr s c = 0"
  then show "actually_set_value base_set mr s v d c = base_set 0 d c"
    by (simp add: actually_set_value_def Let_def)
next
  assume "toggled (desc (base c))"
  then show "actually_set_value base_set mr s v d c = base_set v d c"
    by (simp add: actually_set_value_def)
next
  assume "\<not> toggled (desc (base c))"
  then show "get_masters_value_locked mr s c = prod_list (map (\<lambda>kr. mr s (snd kr)) (masters c))"
    by (rule get_masters_value_locked_continuous)
next
  show "lower (desc (base c)) \<le> max (lower (desc (base c))) (min (upper (desc (base c))) x)"
    by simp
next
  assume "lower (desc (base c)) \<le> upper (desc (base c))"
  then show "max (lower (desc (base c))) (min (upper (desc (base c))) x) \<le> upper (desc (base c))"
    by simp
qed

theorem C5_back_solve_witness:
  "user_value (base (fst (actually_set_value store_value value_ratio session0 (3/5) NoGroup
      scenario_a))) = 6/5
   \<and> user_value (base (fst (actually_set_value store_value value_ratio session0 3 NoGroup
      scenario_a))) = 2
   \<and> user_value (base (fst (actually_set_value store_value value_ratio session0 (3/5) NoGroup
      c5_zero))) = 0
   \<and> user_value (base (fst (actually_set_value store_value value_ratio session0 1 NoGroup
      c2_control))) = 1"
proof -
  have a: "\<not> toggled (desc (base scenario_a))" "masters scenario_a \<noteq> []"
    "get_masters_value_locked value_ratio session0 scenario_a = 1/2"
    by (simp_all add: scenario_a_def plain_control_def value_ratio_def)
  have b: "\<not> toggled (desc (base c5_zero))" "masters c5_zero \<noteq> []"
    "get_masters_value_locked value_ratio session0 c5_zero = 0"
    by (simp_all add: c5_zero_def plain_control_def value_ratio_def)
  have c: "toggled (desc (base c2_control))" by (simp add: c2_control_def)
  have l: "lower (desc (base scenario_a)) = 0" "upper (desc (base scenario_a)) = 2"
    by (simp_all add: scenario_a_def)
  from C5_back_solve [of scenario_a value_ratio session0 store_value "3/5" NoGroup]
    C5_back_solve [of scenario_a value_ratio session0 store_value 3 NoGroup]
    C5_back_solve [of c5_zero value_ratio session0 store_value "3/5" NoGroup]
    C5_back_solve [of c2_control value_ratio session0 store_value 1 NoGroup]
    a b c l
  show ?thesis by (simp add: store_value_def set_double_def)
qed

section \<open>Properties of the curve compositor\<close>

lemma multiply_by_scratch_closed:
  "multiply_by_scratch i n vec sc = (\<lambda>j. if i \<le> j \<and> j < n then vec j * sc j else vec j)"
proof (induction i n vec sc rule: multiply_by_scratch.induct)
  case (1 i veclen vec scratch)
  show ?case
  proof (cases "i < veclen")
    case True
    have "multiply_by_scratch i veclen vec scratch
        = multiply_by_scratch (Suc i) veclen (vec(i := vec i * scratch i)) scratch"
      using True by (subst multiply_by_scratch.simps) simp
    also have "\<dots> = (\<lambda>j. if Suc i \<le> j \<and> j < veclen
                         then (vec(i := vec i * scratch i)) j * scratch j
                         else (vec(i := vec i * scratch i)) j)"
      using True by (rule 1)
    also have "\<dots> = (\<lambda>j. if i \<le> j \<and> j < veclen then vec j * scratch j else vec j)"
      using True by (auto simp: fun_eq_iff)
    finally show ?thesis .
  next
    case False
    then show ?thesis
      by (subst multiply_by_scratch.simps) (auto simp: fun_eq_iff)
  qed
qed

lemma fold_compose_masters:
  fixes F :: "'a \<Rightarrow> (nat \<Rightarrow> real) \<Rightarrow> (bool \<times> (nat \<Rightarrow> real)) option"
  assumes "\<forall>x\<in>set xs. \<forall>v. \<exists>out. F x v = Some (A x, out)"
  shows "fold (\<lambda>x acc. case acc of None \<Rightarrow> None
                | Some rv_vec \<Rightarrow>
                    (case F x (snd rv_vec) of None \<Rightarrow> None
                     | Some sub \<Rightarrow> Some (fst rv_vec \<or> fst sub, G x (snd sub))))
           xs (Some (rv0, v0))
         = Some (rv0 \<or> (\<exists>x\<in>set xs. A x),
                 fold (\<lambda>x v. case F x v of None \<Rightarrow> v | Some sub \<Rightarrow> G x (snd sub)) xs v0)"
  using assms
proof (induction xs arbitrary: rv0 v0)
  case Nil
  then show ?case by simp
next
  case (Cons x xs)
  from Cons.prems have "\<forall>v. \<exists>out. F x v = Some (A x, out)" by simp
  then obtain out where o: "F x v0 = Some (A x, out)" by blast
  from Cons.prems have "\<forall>x\<in>set xs. \<forall>v. \<exists>out. F x v = Some (A x, out)" by simp
  from Cons.IH [OF this, of "rv0 \<or> A x" "G x out"] o show ?case by auto
qed

lemma size_master_less:
  "kr \<in> set (masters c) \<Longrightarrow> size (master (snd kr)) < size c"
  using master_in_masters_size [of kr "masters c"] by (cases c) simp

lemma has_lists_iff:
  "has_lists c = (alist (base c) \<noteq> None \<and> (\<forall>kr\<in>set (masters c). has_lists (master (snd kr))))"
  by (cases c) (simp add: list_all_iff)

lemma masters_curve_multiply_unfold:
  assumes "alist (base c) = Some l"
    and "\<forall>kr\<in>set (masters c). \<forall>v. \<exists>out.
           masters_curve_multiply mr s (master (snd kr)) start e v n = Some (A kr, out)"
  shows "masters_curve_multiply mr s c start e vec n
     = Some (rt_safe_get_vector l start e n \<noteq> None \<or> (\<exists>kr\<in>set (masters c). A kr),
             fold (\<lambda>kr v. case masters_curve_multiply mr s (master (snd kr)) start e v n of
                              None \<Rightarrow> v
                            | Some sub \<Rightarrow> apply_gain_to_buffer (snd sub) n (mr s (snd kr)))
               (masters c)
               (case rt_safe_get_vector l start e n of
                  Some scratch \<Rightarrow> (\<lambda>j. if j < n then vec j * scratch j else vec j)
                | None \<Rightarrow> apply_gain_to_buffer vec n (user_value (base c))))"
proof -
  obtain b mc ms mn where c: "c = Control b mc ms mn" by (cases c)
  let ?own = "(case rt_safe_get_vector l start e n of
                 Some scratch \<Rightarrow> (True, multiply_by_scratch 0 n vec scratch)
               | None \<Rightarrow> (False, apply_gain_to_buffer vec n (get_double False 0 b)))"
  have own: "?own = (rt_safe_get_vector l start e n \<noteq> None,
                     case rt_safe_get_vector l start e n of
                       Some scratch \<Rightarrow> (\<lambda>j. if j < n then vec j * scratch j else vec j)
                     | None \<Rightarrow> apply_gain_to_buffer vec n (user_value b))"
    by (simp add: multiply_by_scratch_closed split: option.split)
  from assms(2) c
  have sub: "\<forall>kr\<in>set ms. \<forall>v. \<exists>out.
      (\<lambda>kr v. masters_curve_multiply mr s (master (snd kr)) start e v n) kr v = Some (A kr, out)"
    by simp
  note f = fold_compose_masters [OF sub,
      of "\<lambda>kr v'. apply_gain_to_buffer v' n (mr s (snd kr))" "fst ?own" "snd ?own"]
  from assms(1) c have l: "alist b = Some l" by simp
  show ?thesis unfolding c
  proof (cases "ms = []")
    case True
    with l own show "masters_curve_multiply mr s (Control b mc ms mn) start e vec n
     = Some (rt_safe_get_vector l start e n \<noteq> None \<or> (\<exists>kr\<in>set (masters (Control b mc ms mn)). A kr),
             fold (\<lambda>kr v. case masters_curve_multiply mr s (master (snd kr)) start e v n of
                              None \<Rightarrow> v
                            | Some sub \<Rightarrow> apply_gain_to_buffer (snd sub) n (mr s (snd kr)))
               (masters (Control b mc ms mn))
               (case rt_safe_get_vector l start e n of
                  Some scratch \<Rightarrow> (\<lambda>j. if j < n then vec j * scratch j else vec j)
                | None \<Rightarrow> apply_gain_to_buffer vec n (user_value (base (Control b mc ms mn)))))"
      by (simp cong: option.case_cong)
  next
    case False
    with l own f show "masters_curve_multiply mr s (Control b mc ms mn) start e vec n
     = Some (rt_safe_get_vector l start e n \<noteq> None \<or> (\<exists>kr\<in>set (masters (Control b mc ms mn)). A kr),
             fold (\<lambda>kr v. case masters_curve_multiply mr s (master (snd kr)) start e v n of
                              None \<Rightarrow> v
                            | Some sub \<Rightarrow> apply_gain_to_buffer (snd sub) n (mr s (snd kr)))
               (masters (Control b mc ms mn))
               (case rt_safe_get_vector l start e n of
                  Some scratch \<Rightarrow> (\<lambda>j. if j < n then vec j * scratch j else vec j)
                | None \<Rightarrow> apply_gain_to_buffer vec n (user_value (base (Control b mc ms mn)))))"
      by (simp cong: option.case_cong)
  qed
qed

lemma masters_curve_multiply_defined:
  "has_lists c \<Longrightarrow>
   \<exists>rv. \<forall>v. \<exists>out. masters_curve_multiply mr s c start e v n = Some (rv, out)"
proof (induction c rule: measure_induct_rule [where f = size])
  case (less c)
  from less.prems obtain l where l: "alist (base c) = Some l"
    and hl: "\<forall>kr\<in>set (masters c). has_lists (master (snd kr))"
    using has_lists_iff [of c] by auto
  define A :: "ID \<times> control MasterRecord \<Rightarrow> bool" where "A kr = (map_option fst
      (masters_curve_multiply mr s (master (snd kr)) start e (\<lambda>j. 0) n) = Some True)" for kr
  have "\<forall>kr\<in>set (masters c). \<forall>v. \<exists>out.
           masters_curve_multiply mr s (master (snd kr)) start e v n = Some (A kr, out)"
  proof (intro ballI allI)
    fix kr v
    assume kr: "kr \<in> set (masters c)"
    from less.IH [OF size_master_less [OF kr]] hl kr
    obtain rv where rv: "\<forall>v. \<exists>out.
        masters_curve_multiply mr s (master (snd kr)) start e v n = Some (rv, out)"
      by blast
    then obtain o0 where "masters_curve_multiply mr s (master (snd kr)) start e (\<lambda>j. 0) n
        = Some (rv, o0)" by blast
    then have "A kr = rv" by (simp add: A_def)
    with rv show "\<exists>out. masters_curve_multiply mr s (master (snd kr)) start e v n
        = Some (A kr, out)" by simp
  qed
  from masters_curve_multiply_unfold [OF l this] show ?case by blast
qed

lemma masters_curve_multiply_flag:
  assumes "has_lists c"
  shows "\<exists>out. masters_curve_multiply mr s c start e v n
     = Some (map_option fst (masters_curve_multiply mr s c start e vec n) = Some True, out)"
proof -
  from masters_curve_multiply_defined [OF assms, of mr s start e n]
  obtain rv where rv: "\<forall>v. \<exists>out. masters_curve_multiply mr s c start e v n = Some (rv, out)"
    by blast
  then obtain o0 where "masters_curve_multiply mr s c start e vec n = Some (rv, o0)" by blast
  then have "(map_option fst (masters_curve_multiply mr s c start e vec n) = Some True) = rv"
    by simp
  with rv show ?thesis by simp
qed

text \<open>
  C9: when every control reached has an automation list, \<open>masters_curve_multiply\<close>
  returns. Its result is true exactly when the control's own curve evaluation succeeded
  or the call on some master returned true (a call's flag does not depend on the buffer
  it is given). The buffer is first multiplied elementwise by the scratch values or,
  when the own evaluation failed, by the constant raw value of the control; then, master
  by master, the master's own call is applied to it and the result is multiplied by that
  master's ratio.
\<close>

theorem C9_masters_curve_multiply:
  assumes "has_lists c" and "alist (base c) = Some l"
  shows "masters_curve_multiply mr s c start e vec n
     = Some (rt_safe_get_vector l start e n \<noteq> None
             \<or> (\<exists>kr\<in>set (masters c).
                   map_option fst (masters_curve_multiply mr s (master (snd kr)) start e vec n)
                     = Some True),
             fold (\<lambda>kr v. case masters_curve_multiply mr s (master (snd kr)) start e v n of
                              None \<Rightarrow> v
                            | Some sub \<Rightarrow> apply_gain_to_buffer (snd sub) n (mr s (snd kr)))
               (masters c)
               (case rt_safe_get_vector l start e n of
                  Some scratch \<Rightarrow> (\<lambda>j. if j < n then vec j * scratch j else vec j)
                | None \<Rightarrow> apply_gain_to_buffer vec n (user_value (base c))))"
proof -
  from assms(1) have "\<forall>kr\<in>set (masters c). has_lists (master (snd kr))"
    using has_lists_iff [of c] by simp
  then have "\<forall>kr\<in>set (masters c). \<forall>v. \<exists>out.
      masters_curve_multiply mr s (master (snd kr)) start e v n
        = Some (map_option fst (masters_curve_multiply mr s (master (snd kr)) start e vec n)
                  = Some True, out)"
    using masters_curve_multiply_flag by blast
  from masters_curve_multiply_unfold [OF assms(2) this] show ?thesis .
qed

theorem C9_masters_curve_multiply_witness:
  "has_lists curve_slave
   \<and> map_option fst (masters_curve_multiply value_ratio session0 curve_slave 0 2 (\<lambda>j. 1) 2)
       = Some True
   \<and> map_option (\<lambda>r. (snd r 0, snd r 1, snd r 2))
       (masters_curve_multiply value_ratio session0 curve_slave 0 2 (\<lambda>j. 1) 2)
       = Some (1/2, 1/2, 1)
   \<and> map_option fst (masters_curve_multiply value_ratio session0 curve_master 0 2 (\<lambda>j. 1) 2)
       = Some True"
proof -
  have h: "has_lists curve_slave" by (simp add: curve_slave_def curve_master_def)
  have l: "alist (base curve_slave) = Some \<lparr>automation_playback = False, eval = (\<lambda>t. 0),
                            rt_safe_eval = (\<lambda>t. (0, False)),
                            rt_safe_get_vector = (\<lambda>a b n. None)\<rparr>"
    by (simp add: curve_slave_def)
  have m: "masters_curve_multiply value_ratio session0 curve_master 0 2 v 2
      = Some (True, \<lambda>j. if j < 2 then v j * 2 else v j)" for v
    by (simp add: curve_master_def multiply_by_scratch_closed)
  from C9_masters_curve_multiply [OF h l, of value_ratio session0 0 2 "\<lambda>j. 1" 2] h m
  show ?thesis
    by (simp add: curve_slave_def apply_gain_to_buffer_def value_ratio_def)
       (simp add: curve_master_def)
qed

section \<open>Properties of the boolean aggregator\<close>

lemma is_changed_of_simps [simp]:
  "is_changed_of i (Changed j f d) = (j = i)"
  "\<not> is_changed_of i (ReaderLock j)" "\<not> is_changed_of i (ReaderUnlock j)"
  by (simp_all add: is_changed_of_def)

text \<open>
  A signal of a master that is being visited reaches the visiting control: with
  \<open>handle_master_change\<close> of this class, the handler refreshes the cached boolean from
  \<open>get_value()\<close> of the master and emits the control's own \<open>Changed\<close>, inside the
  pass.
\<close>

lemma master_signal_reaches_slave:
  assumes "handle_master_change_of env = handle_master_change"
  shows "emit_changed env [fr] m from_self disp
     = ([resplit fr (update_boolean_masters_records (master_ratio env) (session env)
                      (rebuild fr m) m)],
        [Changed (self_id m) from_self disp,
         Changed (ac_id (fr_base fr)) False NoGroup])"
  using assms
  by (simp add: master_changed_def reader_trylock_def handle_master_change_def Let_def
      self_id_def rebuild_def update_boolean_masters_records_def split: option.split)


text \<open>
More fuel gives the same result.
\<close>

lemma fuel_more:
  "(\<forall>env ctx c start len r.
      boolean_automation_run n env ctx c start len = Some r \<longrightarrow>
      boolean_automation_run (Suc n) env ctx c start len = Some r)
   \<and> (\<forall>env ctx c start len r.
      boolean_automation_run_locked n env ctx c start len = Some r \<longrightarrow>
      boolean_automation_run_locked (Suc n) env ctx c start len = Some r)
   \<and> (\<forall>env st start len r.
      masters_loop n env st start len = Some r \<longrightarrow>
      masters_loop (Suc n) env st start len = Some r)"
proof (induction n)
  case 0
  show ?case by simp
next
  case (Suc n)
  note [simp del] = boolean_automation_run.simps boolean_automation_run_locked.simps
    masters_loop.simps
  from Suc have run: "\<And>env ctx c start len r.
      boolean_automation_run n env ctx c start len = Some r \<Longrightarrow>
      boolean_automation_run (Suc n) env ctx c start len = Some r"
    and locked: "\<And>env ctx c start len r.
      boolean_automation_run_locked n env ctx c start len = Some r \<Longrightarrow>
      boolean_automation_run_locked (Suc n) env ctx c start len = Some r"
    and loop: "\<And>env st start len r.
      masters_loop n env st start len = Some r \<Longrightarrow>
      masters_loop (Suc n) env st start len = Some r"
    by blast+
  have a: "boolean_automation_run (Suc (Suc n)) env ctx c start len = Some r"
    if h: "boolean_automation_run (Suc n) env ctx c start len = Some r"
    for env ctx c start len r
  proof -
    note u1 = boolean_automation_run.simps(2) [of n env ctx c start len]
    note u2 = boolean_automation_run.simps(2) [of "Suc n" env ctx c start len]
    from h obtain x where x: "boolean_automation_run_locked n env ctx c start len = Some x"
      by (auto simp: u1 split: option.splits)
    from locked [OF x] x h show ?thesis by (simp add: u1 u2)
  qed
  have b: "boolean_automation_run_locked (Suc (Suc n)) env ctx c start len = Some r"
    if h: "boolean_automation_run_locked (Suc n) env ctx c start len = Some r"
    for env ctx c start len r
  proof -
    note u1 = boolean_automation_run_locked.simps(2) [of n env ctx c start len]
    note u2 = boolean_automation_run_locked.simps(2) [of "Suc n" env ctx c start len]
    show ?thesis
    proof (cases "toggled (desc (base c))")
      case False
      with h show ?thesis by (simp add: u1 u2)
    next
      case True
      with h have x: "masters_loop n env
          \<lparr>ps_ctx = ctx, ps_base = base c, ps_mute = is_mute_control c,
           ps_node = masters_node c, ps_seen = [], ps_todo = masters c, ps_rv = False,
           ps_effects = []\<rparr> start len = Some r"
        by (simp add: u1)
      from loop [OF x] True show ?thesis by (simp add: u2)
    qed
  qed
  have c: "masters_loop (Suc (Suc n)) env st start len = Some r"
    if h: "masters_loop (Suc n) env st start len = Some r" for env st start len r
  proof -
    note u1 = masters_loop.simps(2) [of n env st start len]
    note u2 = masters_loop.simps(2) [of "Suc n" env st start len]
    show ?thesis
    proof (cases "ps_todo st")
      case Nil
      with h show ?thesis by (simp add: u1 u2)
    next
      case (Cons kr rest)
      let ?ac = "master (snd kr)"
      show ?thesis
      proof (cases "\<not> ac_automation_playback (base ?ac) \<or> \<not> toggled (desc (base ?ac))")
        case True
        with h Cons have x: "masters_loop n env
            (st\<lparr>ps_seen := ps_seen st @ [kr], ps_todo := rest\<rparr>) start len = Some r"
          by (auto simp: u1 Let_def split: if_splits)
        from loop [OF x] Cons True show ?thesis by (auto simp: u2 Let_def)
      next
        case False
        let ?fr = "\<lparr>fr_base = ps_base st, fr_mute = ps_mute st, fr_node = ps_node st,
                        fr_seen = ps_seen st, fr_key = fst kr, fr_yn = yn (snd kr),
                        fr_val_ctrl = val_ctrl (snd kr), fr_val_master = val_master (snd kr),
                        fr_todo = rest\<rparr>"
        let ?nested = "\<lambda>k. (if is_mute_control ?ac
                       then boolean_automation_run k env (?fr # ps_ctx st) ?ac start len
                       else Some (False, ?ac, ?fr # ps_ctx st, []))"
        from h Cons False obtain nested st' where
          n: "?nested n = Some nested" and v: "visit_master env start st ?ac nested = Some st'"
          and l: "masters_loop n env st' start len = Some r"
          by (auto simp: u1 Let_def split: option.splits if_splits)
        from n run have n': "?nested (Suc n) = Some nested" by (auto split: if_splits)
        from Cons False n' v loop [OF l] show ?thesis
          by (simp add: u2 Let_def)
      qed
    qed
  qed
  from a b c show ?case by blast
qed

text \<open>
  C7: \<open>boolean_automation_run\<close> emits this control's \<open>Changed\<close> exactly once, after
  releasing the lock, when a cached boolean flipped during the pass. The code at
  scenario C of the specification (a toggled control, two toggled masters in playback
  whose envelopes read "on" while the records cache "off"): each flip makes the master
  signal \<open>Changed\<close>, the handler \<open>master_changed\<close> of the control gets the lock
  (a reader try-lock under the reader lock of the pass) and emits the control's
  \<open>Changed\<close> inside the pass. The control's \<open>Changed\<close> is emitted five times when
  \<open>set_value_unchecked\<close> signals the change and three times when it does not; the
  handler also puts the cached booleans back to \<open>get_value()\<close> of the masters, which
  is 0 for a toggled master in playback without masters of its own.
\<close>

theorem C7_scenario_c_emits_changed_inside_pass:
  "map_option
     (\<lambda>r. (fst r,
           map (\<lambda>kr. (fst kr, yn (snd kr), user_value (base (master (snd kr)))))
             (masters (fst (snd r))),
           snd (snd (snd r))))
     (boolean_automation_run 8 (env0 store_unchecked) [] scenario_c 0 64)
     = Some (True, [(2, False, 1), (3, False, 1)],
             [ReaderLock 1,
              Changed 2 True NoGroup, Changed 1 False NoGroup,
              Changed 2 False NoGroup, Changed 1 False NoGroup,
              Changed 3 True NoGroup, Changed 1 False NoGroup,
              Changed 3 False NoGroup, Changed 1 False NoGroup,
              ReaderUnlock 1,
              Changed 1 False NoGroup])
   \<and> map_option (\<lambda>r. length (filter (is_changed_of (self_id scenario_c)) (snd (snd (snd r)))))
        (boolean_automation_run 8 (env0 store_unchecked) [] scenario_c 0 64) = Some 5
   \<and> map_option (\<lambda>r. snd (snd (snd r)))
        (boolean_automation_run 8 (env0 store_silently) [] scenario_c 0 64)
     = Some [ReaderLock 1,
             Changed 2 False NoGroup, Changed 1 False NoGroup,
             Changed 3 False NoGroup, Changed 1 False NoGroup,
             ReaderUnlock 1,
             Changed 1 False NoGroup]
   \<and> map_option (\<lambda>r. length (filter (is_changed_of (self_id scenario_c)) (snd (snd (snd r)))))
        (boolean_automation_run 8 (env0 store_silently) [] scenario_c 0 64) = Some 3"
  by code_simp

section \<open>Properties of persistence\<close>

lemma fold_add_child:
  "fold (\<lambda>x n. add_child_nocopy (f x) n) xs (XMLNode nm ps cs) = XMLNode nm ps (cs @ map f xs)"
  by (induction xs arbitrary: cs) simp_all

lemma get_state_children:
  "masters c \<noteq> [] \<Longrightarrow>
   children (get_state node c)
     = children node @ [XMLNode ''masters'' []
          (map (\<lambda>kr. master_node (toggled (desc (base c))) (snd kr)) (masters c))]"
  by (cases node) (simp add: get_state_def fold_add_child)

lemma fold_last_masters:
  "fold (\<lambda>niter saved. if node_name niter = ''masters'' then Some niter else saved)
     (xs @ [XMLNode ''masters'' ps cs]) old = Some (XMLNode ''masters'' ps cs)"
  by simp

lemma master_node_id [simp]:
  "get_property_id ''id'' (master_node tg r) = Some (self_id (master r))"
  by (simp add: master_node_def get_property_id_def Let_def)

lemma set_state_master_node:
  "MasterRecord_set_state (master_node True r) r' = set_yn (yn r) r'"
  "MasterRecord_set_state (master_node False r) r'
     = MasterRecord (master r') (yn r') (val_ctrl r) (val_master r)"
  by (cases r'; simp add: master_node_def get_property_bool_def get_property_double_def Let_def)+

lemma restore_fold:
  assumes "distinct (map fst xs)" and "\<forall>kr\<in>set xs. fst kr = self_id (master (snd kr))"
  shows "map_of (fold (\<lambda>niter ms.
                     case get_property_id ''id'' niter of
                       None \<Rightarrow> ms
                     | Some id_val \<Rightarrow>
                         (case map_of ms id_val of
                            None \<Rightarrow> ms
                          | Some r \<Rightarrow> masters_modify id_val (MasterRecord_set_state niter) ms))
                  (map (\<lambda>kr. master_node tg (snd kr)) xs) ms) k
     = (case map_of xs k of
          None \<Rightarrow> map_of ms k
        | Some r \<Rightarrow> map_option (MasterRecord_set_state (master_node tg r)) (map_of ms k))"
  using assms
proof (induction xs arbitrary: ms)
  case Nil
  then show ?case by simp
next
  case (Cons x xs)
  obtain k0 r0 where x: "x = (k0, r0)" by (cases x)
  from Cons.prems x have id: "self_id (master r0) = k0" by simp
  let ?ms1 = "(case map_of ms k0 of None \<Rightarrow> ms
               | Some r \<Rightarrow> masters_modify k0 (MasterRecord_set_state (master_node tg r0)) ms)"
  have m1: "map_of ?ms1 k = (if k = k0
      then map_option (MasterRecord_set_state (master_node tg r0)) (map_of ms k0)
      else map_of ms k)" for k
    by (simp add: map_of_masters_modify split: option.split)
  from Cons.prems x have d: "distinct (map fst xs)"
    and i: "\<forall>kr\<in>set xs. fst kr = self_id (master (snd kr))"
    and n: "map_of xs k0 = None"
    by (auto simp: map_of_eq_None_iff)
  from Cons.IH [OF d i, of ?ms1] x id m1 n show ?case
    by (auto split: option.split)
qed

lemma round_trip_masters:
  assumes "masters_sorted c" and "\<forall>kr\<in>set (masters c). fst kr = self_id (master (snd kr))"
    and "masters c \<noteq> []"
  shows "masters_node (use_saved_master_ratios (set_state base_set_state (get_state node c) c'))
       = None
   \<and> map_of (masters (use_saved_master_ratios
        (set_state base_set_state (get_state node c) c'))) k
       = (case map_of (masters c) k of
            None \<Rightarrow> map_of (masters c') k
          | Some r \<Rightarrow> map_option (MasterRecord_set_state (master_node (toggled (desc (base c))) r))
                        (map_of (masters c') k))
   \<and> map fst (masters (use_saved_master_ratios
        (set_state base_set_state (get_state node c) c'))) = map fst (masters c')"
proof -
  from assms(1) have d: "distinct (map fst (masters c))"
    by (simp add: masters_sorted_def strict_sorted_iff)
  let ?saved = "XMLNode ''masters'' []
          (map (\<lambda>kr. master_node (toggled (desc (base c))) (snd kr)) (masters c))"
  have st: "set_state base_set_state (get_state node c) c'
      = Control (base_set_state (get_state node c) (base c')) (is_mute_control c') (masters c')
          (Some ?saved)"
    by (simp add: set_state_def get_state_children [OF assms(3)])
  let ?step = "(\<lambda>niter ms.
                     case get_property_id ''id'' niter of
                       None \<Rightarrow> ms
                     | Some id_val \<Rightarrow>
                         (case map_of ms id_val of
                            None \<Rightarrow> ms
                          | Some r \<Rightarrow> masters_modify id_val (MasterRecord_set_state niter) ms))"
  have keys: "map fst (fold ?step ns ms) = map fst ms" for ns ms
    by (induction ns arbitrary: ms) (simp_all split: option.split)
  show ?thesis
    unfolding st
    by (simp add: use_saved_master_ratios_def restore_fold [OF d assms(2)] keys)
qed

text \<open>
  C8: let \<open>get_state\<close> serialise a control whose registry obeys the \<open>std::map\<close>
  invariant (keys ascending, each key the identity of its master), and let
  \<open>set_state\<close> followed by \<open>use_saved_master_ratios\<close> restore it into a control to
  which the masters are attached again. Then every record of the restored control whose
  master had a record when serialising gets the saved sub-state: the cached boolean for
  a toggled control, the pair \<open>val_ctrl\<close>, \<open>val_master\<close> for a continuous one; the
  rest of the record, the keys of the registry and nothing else change, and the stash is
  dropped.
\<close>

theorem C8_persistence_round_trip:
  assumes "masters_sorted c" and "\<forall>kr\<in>set (masters c). fst kr = self_id (master (snd kr))"
    and "map_of (masters c) k = Some r" and "map_of (masters c') k = Some r'"
  shows "(toggled (desc (base c)) \<longrightarrow>
        map_of (masters (use_saved_master_ratios
          (set_state base_set_state (get_state node c) c'))) k = Some (set_yn (yn r) r'))
   \<and> (\<not> toggled (desc (base c)) \<longrightarrow>
        map_of (masters (use_saved_master_ratios
          (set_state base_set_state (get_state node c) c'))) k
          = Some (MasterRecord (master r') (yn r') (val_ctrl r) (val_master r)))
   \<and> map fst (masters (use_saved_master_ratios
        (set_state base_set_state (get_state node c) c'))) = map fst (masters c')
   \<and> masters_node (use_saved_master_ratios
        (set_state base_set_state (get_state node c) c')) = None"
proof -
  from assms(3) have ne: "masters c \<noteq> []" by auto
  from round_trip_masters [OF assms(1,2) ne, of base_set_state node c' k] assms(3,4)
  show ?thesis by (auto simp: set_state_master_node)
qed

theorem C8_persistence_round_trip_witness:
  "masters_sorted c8_toggled
   \<and> map_option yn (map_of (masters (use_saved_master_ratios
        (set_state (\<lambda>n b. b) (get_state (XMLNode ''Controllable'' [] []) c8_toggled)
           c8_toggled_reattached))) 2) = Some True
   \<and> masters_sorted c8_continuous
   \<and> map_option (\<lambda>r. (val_ctrl r, val_master r)) (map_of (masters (use_saved_master_ratios
        (set_state (\<lambda>n b. b) (get_state (XMLNode ''Controllable'' [] []) c8_continuous)
           c8_continuous_reattached))) 2) = Some (4/5, 1)"
proof -
  have t1: "masters_sorted c8_toggled" by (simp add: c8_toggled_def masters_sorted_def)
  have t2: "\<forall>kr\<in>set (masters c8_toggled). fst kr = self_id (master (snd kr))"
    by (simp add: c8_toggled_def plain_control_def self_id_def)
  have t3: "map_of (masters c8_toggled) 2 = Some (MasterRecord (plain_control 2 True 1) True 0 0)"
    by (simp add: c8_toggled_def)
  have t4: "map_of (masters c8_toggled_reattached) 2
      = Some (MasterRecord (plain_control 2 True 0) False 0 0)"
    by (simp add: c8_toggled_reattached_def)
  have t5: "toggled (desc (base c8_toggled))" by (simp add: c8_toggled_def)
  have c1: "masters_sorted c8_continuous" by (simp add: c8_continuous_def masters_sorted_def)
  have c2: "\<forall>kr\<in>set (masters c8_continuous). fst kr = self_id (master (snd kr))"
    by (simp add: c8_continuous_def plain_control_def self_id_def)
  have c3: "map_of (masters c8_continuous) 2
      = Some (MasterRecord (plain_control 2 False (1/2)) False (4/5) 1)"
    by (simp add: c8_continuous_def)
  have c4: "map_of (masters c8_continuous_reattached) 2
      = Some (MasterRecord (plain_control 2 False (1/2)) False 1 (1/2))"
    by (simp add: c8_continuous_reattached_def)
  have c5: "\<not> toggled (desc (base c8_continuous))" by (simp add: c8_continuous_def)
  from C8_persistence_round_trip [OF t1 t2 t3 t4, of "\<lambda>n b. b" "XMLNode ''Controllable'' [] []"]
    C8_persistence_round_trip [OF c1 c2 c3 c4, of "\<lambda>n b. b" "XMLNode ''Controllable'' [] []"]
    t1 t5 c1 c5
  show ?thesis by simp
qed

end
